theory Spec2Isabelle
  imports Complex_Main "HOL-Library.Word"
begin

unbundle bit_operations_syntax

section \<open>Constants of hi_aligner.h\<close>



definition minAnchorLen :: "32 word" where
  "minAnchorLen = 7"

definition minAnchorLen_noncan :: "32 word" where
  "minAnchorLen_noncan = 14"

definition MaxIntronLen :: "32 word \<Rightarrow> 32 word" where
  "MaxIntronLen anchor =
     (if anchor \<ge> minAnchorLen then
        let shift = push_bit 1 anchor - 4;
            shift = min (max shift 13) 30
        in push_bit (unat shift) 1
      else 0)"

definition MaxIntronLen_noncan :: "32 word \<Rightarrow> 32 word" where
  "MaxIntronLen_noncan anchor =
     (if anchor \<ge> minAnchorLen_noncan then
        let shift = push_bit 1 anchor - 10;
            shift = min shift 30
        in push_bit (unat shift) 1
      else 0)"

section \<open>Edits and hits\<close>


datatype spl_dir = EDIT_SPL_UNKNOWN | EDIT_SPL_FW | EDIT_SPL_RC





















section \<open>Score recomputation\<close>

text \<open>
  What \<open>calculateScore\<close> and \<open>combineWith\<close> take from their collaborators
  (\<open>Read\<close>, \<open>Scoring\<close>, \<open>SpliceSiteDB\<close>, \<open>BitPairReference\<close>, all
  declared outside the source files) is gathered in one record:
  \<^item> \<open>rdlen\<close> is \<open>seq.length()\<close>;
  \<^item> \<open>sc_score fw off qchr chr\<close> is the penalty
    \<open>sc.score(dna2col[qchr] - '0', asc2dnamask[chr], qual[off] - 33)\<close> of a mismatch
    edit at read offset \<open>off\<close>, the quality string being the one of strand \<open>fw\<close>;
  \<^item> \<open>canSpl\<close> and \<open>noncanSpl\<close> are the splice penalties called with an intron
    length, \<open>canSpl0\<close> and \<open>noncanSpl0\<close> the same calls without an argument;
  \<^item> \<open>probscore\<close> is \<open>SpliceSiteDB::probscore\<close>, a \<open>float\<close>, given by
    the rational number it denotes;
  \<^item> \<open>approxLen\<close> is \<open>ref.approxLen\<close>.
\<close>

record Env =
  rdlen :: nat
  sc_score :: "bool \<Rightarrow> nat \<Rightarrow> nat \<Rightarrow> nat \<Rightarrow> int"
  sc_match :: int
  canSpl :: "int \<Rightarrow> int"
  noncanSpl :: "int \<Rightarrow> int"
  canSpl0 :: int
  noncanSpl0 :: int
  conflictSpl :: int
  readGapOpen :: int
  readGapExtend :: int
  refGapOpen :: int
  refGapExtend :: int
  probscore :: "int \<Rightarrow> int \<Rightarrow> rat"
  approxLen :: "nat \<Rightarrow> nat"
















section \<open>combineWith\<close>

text \<open>
  Modelled from the spec: \<open>SpliceSite\<close> is declared outside the source files; the
  fields are the ones the interface lists (\<open>left()\<close>, \<open>right()\<close>, \<open>_readid\<close>,
  \<open>_fromfile\<close>).
\<close>

record SpliceSite =
  ss_left :: nat
  ss_right :: nat
  readid :: nat
  fromfile :: bool












section \<open>The splice-site scan of combineWith\<close>

text \<open>
  The loop of \<open>combineWith\<close> that tries every split position \<open>i\<close> of the
  overlap window when an intron lies between the two partials. Its inputs are locals of
  \<open>combineWith\<close>: the two reference buffers (\<open>refbuf2\<close> is read at negative
  offsets too), the two arrays of cumulative mismatch scores, the window length and the
  two reference extensions. The window lengths around donor and acceptor are constants
  declared outside the source files and are taken as parameters.
\<close>

record ScanInput =
  refbuf :: "int \<Rightarrow> int"
  refbuf2 :: "int \<Rightarrow> int"
  temp_scores :: "int \<Rightarrow> int"
  temp_scores2 :: "int \<Rightarrow> int"
  len_s :: int
  this_ref_ext :: int
  other_ref_ext :: int

record SpliceWin =
  donor_exonic_len :: int
  donor_intronic_len :: int
  acceptor_intronic_len :: int
  acceptor_exonic_len :: int

definition GT :: int where "GT = 0x23"
definition AG :: int where "AG = 0x02"
definition GTrc :: int where "GTrc = 0x01"
definition AGrc :: int where "AGrc = 0x13"
definition GC :: int where "GC = 0x21"
definition GCrc :: int where "GCrc = 0x21"
definition AT :: int where "AT = 0x03"
definition AC :: int where "AC = 0x01"
definition ATrc :: int where "ATrc = 0x03"
definition ACrc :: int where "ACrc = 0x20"

text \<open>
  The two dinucleotides; \<open>0xff\<close> stays when the two bases are outside the buffer.
\<close>

definition scan_donor :: "ScanInput \<Rightarrow> int \<Rightarrow> int" where
  "scan_donor inp i =
     (if i + 2 < len_s inp + this_ref_ext inp
      then push_bit 4 (refbuf inp (i + 1)) OR refbuf inp (i + 2)
      else 0xff)"

definition scan_acceptor :: "ScanInput \<Rightarrow> int \<Rightarrow> int" where
  "scan_acceptor inp i2 =
     (if i2 - 2 \<ge> - other_ref_ext inp
      then push_bit 4 (refbuf2 inp (i2 - 2)) OR refbuf2 inp (i2 - 1)
      else 0xff)"

definition scan_spldir :: "int \<Rightarrow> int \<Rightarrow> spl_dir" where
  "scan_spldir donor acceptor =
     (if donor = GT \<and> acceptor = AG then EDIT_SPL_FW
      else if donor = AGrc \<and> acceptor = GTrc then EDIT_SPL_RC
      else EDIT_SPL_UNKNOWN)"

definition scan_semi_canonical :: "int \<Rightarrow> int \<Rightarrow> bool" where
  "scan_semi_canonical donor acceptor =
     ((donor = GC \<and> acceptor = AG) \<or> (donor = AT \<and> acceptor = AC)
      \<or> (donor = AGrc \<and> acceptor = GCrc) \<or> (donor = ACrc \<and> acceptor = ATrc))"

text \<open>
  Packing a window of reference bases, two bits a base (an \<open>N\<close> counts as
  \<open>A\<close>); for a reverse splice the window is read backwards and complemented.
\<close>

definition pack_window :: "(int \<Rightarrow> int) \<Rightarrow> int list \<Rightarrow> bool \<Rightarrow> int" where
  "pack_window buf js rc =
     fold (\<lambda>j acc. let base = buf j; base = (if base > 3 then 0 else base)
                    in push_bit 2 acc OR (if rc then base XOR 3 else base)) js 0"

record Candidate =
  tempscore :: int
  spldir :: spl_dir
  semi_canonical :: bool
  splscore :: rat
  temp_donor_seq :: int
  temp_acceptor_seq :: int

definition scan_candidate :: "SpliceWin \<Rightarrow> Env \<Rightarrow> ScanInput \<Rightarrow> int \<Rightarrow> Candidate" where
  "scan_candidate win env inp i =
     (let i2 = i + 1;
          ts = temp_scores inp i + temp_scores2 inp i2;
          donor = scan_donor inp i;
          acceptor = scan_acceptor inp i2;
          dir = scan_spldir donor acceptor;
          semi = scan_semi_canonical donor acceptor;
          ts = ts - (if dir = EDIT_SPL_UNKNOWN then noncanSpl0 env else canSpl0 env);
          (ds, as) =
            (if dir = EDIT_SPL_FW then
               (if i + 1 \<ge> donor_exonic_len win
                   \<and> len_s inp + this_ref_ext inp > i + donor_intronic_len win
                   \<and> i2 + other_ref_ext inp \<ge> acceptor_intronic_len win
                   \<and> len_s inp > i2 + acceptor_exonic_len win - 1
                then (pack_window (refbuf inp)
                        [i + 1 - donor_exonic_len win .. i + donor_intronic_len win] False,
                      pack_window (refbuf2 inp)
                        [i2 - acceptor_intronic_len win .. i2 + acceptor_exonic_len win - 1] False)
                else (0, 0))
             else if dir = EDIT_SPL_RC then
               (if i + 1 \<ge> acceptor_exonic_len win
                   \<and> len_s inp + this_ref_ext inp > i + acceptor_intronic_len win
                   \<and> i2 + other_ref_ext inp \<ge> donor_intronic_len win
                   \<and> len_s inp > i2 + donor_exonic_len win - 1
                then (pack_window (refbuf2 inp)
                        (rev [i2 - donor_intronic_len win .. i2 + donor_exonic_len win - 1]) True,
                      pack_window (refbuf inp)
                        (rev [i + 1 - acceptor_exonic_len win .. i + acceptor_intronic_len win]) True)
                else (0, 0))
             else (0, 0))
      in \<lparr>tempscore = ts, spldir = dir, semi_canonical = semi,
          splscore = (if dir \<noteq> EDIT_SPL_UNKNOWN then probscore env ds as else 0),
          temp_donor_seq = ds, temp_acceptor_seq = as\<rparr>)"

text \<open>
  The best candidate so far; \<open>maxscorei\<close> starts at \<open>OFF_MASK\<close>, the all-ones
  index, which is \<open>- 1\<close> here, and \<open>maxscore\<close> at \<open>MIN_I64\<close>.
\<close>

record ScanState =
  maxscore :: int
  maxscorei :: int
  maxspldir :: spl_dir
  maxsplscore :: rat
  donor_seq_s :: int
  acceptor_seq_s :: int

definition MIN_I64 :: int where
  "MIN_I64 = - (2 ^ 63)"

definition scan_init :: ScanState where
  "scan_init = \<lparr>maxscore = MIN_I64, maxscorei = - 1, maxspldir = EDIT_SPL_UNKNOWN,
                 maxsplscore = 0, donor_seq_s = 0, acceptor_seq_s = 0\<rparr>"

definition scan_step :: "ScanState \<Rightarrow> Candidate \<Rightarrow> int \<Rightarrow> ScanState" where
  "scan_step st c i =
     (if (maxspldir st = EDIT_SPL_UNKNOWN \<and> spldir c = EDIT_SPL_UNKNOWN
            \<and> maxscore st < tempscore c)
         \<or> (maxspldir st = EDIT_SPL_UNKNOWN \<and> spldir c = EDIT_SPL_UNKNOWN
            \<and> maxscore st = tempscore c \<and> semi_canonical c)
         \<or> (maxspldir st \<noteq> EDIT_SPL_UNKNOWN \<and> spldir c \<noteq> EDIT_SPL_UNKNOWN
            \<and> (maxscore st < tempscore c
               \<or> (maxscore st = tempscore c \<and> maxsplscore st < splscore c)))
         \<or> (maxspldir st = EDIT_SPL_UNKNOWN \<and> spldir c \<noteq> EDIT_SPL_UNKNOWN)
      then \<lparr>maxscore = tempscore c, maxscorei = i, maxspldir = spldir c,
             maxsplscore = splscore c,
             donor_seq_s = (if spldir c \<noteq> EDIT_SPL_UNKNOWN then temp_donor_seq c else 0),
             acceptor_seq_s = (if spldir c \<noteq> EDIT_SPL_UNKNOWN then temp_acceptor_seq c else 0)\<rparr>
      else st)"

function scan_loop :: "SpliceWin \<Rightarrow> Env \<Rightarrow> ScanInput \<Rightarrow> int \<Rightarrow> int \<Rightarrow> ScanState \<Rightarrow> ScanState" where
  "scan_loop win env inp i i_limit st =
     (if i < i_limit \<and> i + 1 < len_s inp
      then scan_loop win env inp (i + 1) i_limit (scan_step st (scan_candidate win env inp i) i)
      else st)"
  by pat_completeness auto
termination
  by (relation "measure (\<lambda>(win, env, inp, i, i_limit, st). nat (i_limit - i))") auto




section \<open>Pairing\<close>

text \<open>
  Modelled from the spec: \<open>Coord\<close> (reference id, reference offset, strand) and
  \<open>AlnRes\<close> are declared outside the source files; \<open>pairReads\<close> reads the two
  end coordinates and the score of an alignment result. The sink is external as well:
  its state is a type parameter, and \<open>doneConcordant\<close>, \<open>bestPair\<close> and
  \<open>report\<close> are parameters, next to the globals \<open>gMate1fw\<close>, \<open>gMate2fw\<close>
  and the members \<open>_maxIntronLen\<close>, \<open>_secondary\<close>.
\<close>

record Coord =
  ref :: nat
  off :: int
  orient :: bool










section \<open>Seed hits of a read\<close>

datatype hit_kind = CANDIDATE_HIT | PSEUDOGENE_HIT | ANCHOR_HIT

text \<open>
  \<open>OFF_MASK\<close> is the all-ones value of \<open>index_t\<close>; the value of the 32-bit
  instance is taken.
\<close>

definition OFF_MASK :: nat where
  "OFF_MASK = 0xffffffff"

record BWTHit =
  top_b :: nat
  bot_b :: nat
  fw_b :: bool
  bwoff :: nat
  len_b :: nat
  coords :: "Coord list"
  anchor_examined :: bool
  hit_type :: hit_kind

text \<open>\<open>BWTHit::init\<close>; the hit type defaults to \<open>CANDIDATE_HIT\<close>.\<close>

definition BWTHit_init :: "nat \<Rightarrow> nat \<Rightarrow> bool \<Rightarrow> nat \<Rightarrow> nat \<Rightarrow> hit_kind \<Rightarrow> BWTHit" where
  "BWTHit_init t b f ofs l k =
     \<lparr>top_b = t, bot_b = b, fw_b = f, bwoff = ofs, len_b = l, coords = [],
      anchor_examined = False, hit_type = k\<rparr>"

record ReadBWTHit =
  fw_r :: bool
  len_r :: nat
  cur :: nat
  done_r :: bool
  numPartialSearch :: nat
  numUniqueSearch :: nat
  partialHits :: "BWTHit list"

definition ReadBWTHit_init :: "bool \<Rightarrow> nat \<Rightarrow> ReadBWTHit" where
  "ReadBWTHit_init f l =
     \<lparr>fw_r = f, len_r = l, cur = 0, done_r = False, numPartialSearch = 0,
      numUniqueSearch = 0, partialHits = []\<rparr>"



section \<open>The scheduler\<close>













section \<open>Seed search on the global index\<close>

text \<open>
  The FM index is external. \<open>partialSearch\<close> uses its number of ftab characters,
  the ftab lookup \<open>ftabLoHi(seq, off, false, top, bot)\<close>, and the two LF mappings;
  the loci \<open>tloc\<close> and \<open>bloc\<close> are the ones \<open>HIER_INIT_LOCS\<close> derives from
  \<open>top\<close> and \<open>bot\<close>, so \<open>mapLF\<close> is applied to the row itself, and
  \<open>bloc\<close> is valid exactly when \<open>bot - top \<noteq> 1\<close>. The operation counter
  \<open>bwops_\<close> is left out.
\<close>

record Ebwt =
  ftabChars :: nat
  ftabLoHi :: "nat list \<Rightarrow> nat \<Rightarrow> nat \<times> nat"
  mapLF :: "nat \<Rightarrow> nat \<Rightarrow> nat"
  mapLF1 :: "nat \<Rightarrow> nat \<Rightarrow> nat"

text \<open>The extension of \<open>[top, bot)\<close> by the base \<open>c\<close>: \<open>(topTemp, botTemp)\<close>.\<close>

definition lf_step :: "Ebwt \<Rightarrow> nat \<Rightarrow> nat \<Rightarrow> nat \<Rightarrow> nat \<times> nat" where
  "lf_step e t b c =
     (if c > 3 then (0, 0)
      else if b - t \<noteq> 1 then (mapLF e t c, mapLF e b c)
      else
        let topTemp = mapLF1 e t c
        in if topTemp = OFF_MASK then (0, 0) else (topTemp, topTemp + 1))"

text \<open>
  The locals of the extension loop. \<open>pseudogeneStop_\<close> and \<open>anchorStop_\<close> are
  the copies of the two flags passed in (\<open>ps_on\<close>, \<open>as_on\<close>); the flags passed
  back are \<open>pseudogeneStop\<close> and \<open>anchorStop\<close>; \<open>uniq\<close> is
  \<open>hit._numUniqueSearch\<close>.
\<close>

record LoopSt =
  top_l :: nat
  bot_l :: nat
  dep :: nat
  ps_on :: bool
  as_on :: bool
  same_range :: nat
  similar_range :: nat
  uniq :: nat
  pseudogeneStop :: bool
  anchorStop :: bool

text \<open>
  The block \<open>if(pseudogeneStop_)\<close> after its stop test: the count of steps on
  which the range stayed similar, and the end of the pseudogene watch once the range is a
  single row.
\<close>

definition ps_pseudo :: "LoopSt \<Rightarrow> nat \<Rightarrow> nat \<Rightarrow> LoopSt" where
  "ps_pseudo st topTemp botTemp =
     (if ps_on st then
        (if botTemp - topTemp \<noteq> 1 then
           (if botTemp - topTemp + 2 \<ge> bot_l st - top_l st
            then st\<lparr>similar_range := similar_range st + 1\<rparr>
            else if botTemp - topTemp + 4 < bot_l st - top_l st
            then st\<lparr>similar_range := 0\<rparr>
            else st)
         else st\<lparr>ps_on := False\<rparr>)
      else st)"

text \<open>The first block \<open>if(anchorStop_)\<close>, which may switch the anchor stop off.\<close>

definition ps_anchor :: "nat \<Rightarrow> nat \<Rightarrow> LoopSt \<Rightarrow> nat \<Rightarrow> nat \<Rightarrow> LoopSt" where
  "ps_anchor minK offset st topTemp botTemp =
     (if as_on st then
        let st = (if botTemp - topTemp \<noteq> 1 \<and> bot_l st - top_l st = botTemp - topTemp
                  then (let st = st\<lparr>same_range := same_range st + 1\<rparr>
                        in if same_range st \<ge> 5 then st\<lparr>as_on := False\<rparr> else st)
                  else st\<lparr>same_range := 0\<rparr>)
        in if dep st - offset \<ge> minK + 8 \<and> botTemp - topTemp \<ge> 4
           then st\<lparr>as_on := False\<rparr> else st
      else st)"

text \<open>
  One turn of the loop \<open>while(dep < len)\<close>; the second component tells whether the
  loop goes on (false is a \<open>break\<close>). The pseudogene threshold is a function-local
  \<open>static const\<close> initialised with \<open>_minK + 6\<close>.
\<close>

definition ps_iter :: "Ebwt \<Rightarrow> nat \<Rightarrow> nat list \<Rightarrow> nat \<Rightarrow> LoopSt \<Rightarrow> LoopSt \<times> bool" where
  "ps_iter e minK seq offset st =
     (let c = seq ! (length seq - dep st - 1);
          (topTemp, botTemp) = lf_step e (top_l st) (bot_l st) c
      in
      if botTemp \<le> topTemp then (st, False)
      else if ps_on st \<and> botTemp - topTemp < bot_l st - top_l st \<and> bot_l st - top_l st \<le> 5
              \<and> dep st - offset \<ge> minK + 6 \<and> similar_range st \<ge> 5
      then (st\<lparr>uniq := uniq st + 1, pseudogeneStop := True\<rparr>, False)
      else
        let st = ps_pseudo st topTemp botTemp;
            st = ps_anchor minK offset st topTemp botTemp;
            st = st\<lparr>top_l := topTemp, bot_l := botTemp, dep := dep st + 1\<rparr>
        in
        if as_on st \<and> dep st - offset \<ge> minK + 12 \<and> bot_l st - top_l st = 1
        then (st\<lparr>uniq := uniq st + 1, anchorStop := True\<rparr>, False)
        else (st, True))"

lemma ps_pseudo_dep: "dep (ps_pseudo st t b) = dep st"
  by (simp add: ps_pseudo_def)

lemma ps_anchor_dep: "dep (ps_anchor minK offset st t b) = dep st"
  by (simp add: ps_anchor_def Let_def)

lemma ps_iter_dep:
  "snd (ps_iter e minK seq offset st) \<Longrightarrow> dep (fst (ps_iter e minK seq offset st)) = dep st + 1"
  by (auto simp: ps_iter_def Let_def ps_pseudo_dep ps_anchor_dep split: prod.splits if_splits)

function ps_loop :: "Ebwt \<Rightarrow> nat \<Rightarrow> nat list \<Rightarrow> nat \<Rightarrow> LoopSt \<Rightarrow> LoopSt" where
  "ps_loop e minK seq offset st =
     (if dep st < length seq then
        (let r = ps_iter e minK seq offset st
         in if snd r then ps_loop e minK seq offset (fst r) else fst r)
      else st)"
  by pat_completeness auto
termination
  by (relation "measure (\<lambda>(e, minK, seq, offset, st). length seq - dep st)")
     (auto dest: ps_iter_dep)

text \<open>What \<open>partialSearch\<close> passes back next to the updated \<open>hit\<close>.\<close>

record PSResult =
  hit_o :: ReadBWTHit
  pseudogeneStop_o :: bool
  anchorStop_o :: bool
  nelt :: nat

text \<open>
  The empty partial hit of the three early exits: it starts at \<open>offset\<close> and ends at
  the new cursor, and the state is done once the cursor has reached the read's end.
\<close>

definition empty_hit :: "bool \<Rightarrow> ReadBWTHit \<Rightarrow> nat \<Rightarrow> nat \<Rightarrow> ReadBWTHit" where
  "empty_hit f h offset c =
     h\<lparr>cur := c,
       partialHits := partialHits h @ [BWTHit_init OFF_MASK OFF_MASK f offset (c - offset)
                                          CANDIDATE_HIT]\<rparr>"

definition partialSearch ::
  "Ebwt \<Rightarrow> nat \<Rightarrow> nat list \<Rightarrow> bool \<Rightarrow> ReadBWTHit \<Rightarrow> bool \<Rightarrow> bool \<Rightarrow> PSResult" where
  "partialSearch e minK seq f hit pseudogeneStop_in anchorStop_in =
     (let ftabLen = ftabChars e;
          l = length seq;
          hit = hit\<lparr>numPartialSearch := numPartialSearch hit + 1\<rparr>;
          offset = cur hit;
          d = offset;
          left = l - d
      in
      if left < ftabLen then
        \<lparr>hit_o = (empty_hit f hit offset (len_r hit))\<lparr>done_r := True\<rparr>,
         pseudogeneStop_o = False, anchorStop_o = False, nelt = 0\<rparr>
      else
        (case find (\<lambda>i. seq ! (l - d - 1 - i) > 3) [0 ..< ftabLen] of
           Some i \<Rightarrow>
             let h = empty_hit f hit offset (cur hit + (i + 1))
             in \<lparr>hit_o = (if cur h \<ge> len_r h then h\<lparr>done_r := True\<rparr> else h),
                 pseudogeneStop_o = False, anchorStop_o = False, nelt = 0\<rparr>
         | None \<Rightarrow>
             let (t, b) = ftabLoHi e seq (l - d - ftabLen);
                 d = d + ftabLen
             in
             if b \<le> t then
               let h = empty_hit f hit offset d
               in \<lparr>hit_o = (if cur h \<ge> len_r h then h\<lparr>done_r := True\<rparr> else h),
                   pseudogeneStop_o = False, anchorStop_o = False, nelt = 0\<rparr>
             else
               let st = ps_loop e minK seq offset
                          \<lparr>top_l = t, bot_l = b, dep = d, ps_on = pseudogeneStop_in,
                           as_on = anchorStop_in, same_range = 0, similar_range = 0,
                           uniq = numUniqueSearch hit, pseudogeneStop = False,
                           anchorStop = False\<rparr>;
                   hit = hit\<lparr>numUniqueSearch := uniq st\<rparr>
               in
               if bot_l st > top_l st then
                 let k = (if anchorStop st then ANCHOR_HIT
                          else if pseudogeneStop st then PSEUDOGENE_HIT
                          else CANDIDATE_HIT);
                     h = hit\<lparr>cur := dep st,
                             partialHits := partialHits hit
                                @ [BWTHit_init (top_l st) (bot_l st) f offset (dep st - offset) k]\<rparr>;
                     h = (if cur h \<ge> len_r h then
                            (if k = CANDIDATE_HIT
                             then h\<lparr>numUniqueSearch := numUniqueSearch h + 1\<rparr> else h)
                              \<lparr>done_r := True\<rparr>
                          else h)
                 in \<lparr>hit_o = h, pseudogeneStop_o = pseudogeneStop st,
                     anchorStop_o = anchorStop st, nelt = bot_l st - top_l st\<rparr>
               else
                 \<lparr>hit_o = hit, pseudogeneStop_o = pseudogeneStop st,
                  anchorStop_o = anchorStop st, nelt = 0\<rparr>))"

text \<open>
  The part of \<open>nextBWT\<close> that works on the picked state: \<open>partialSearch\<close> with
  both stops enabled, then the advance of the cursor past the base that stopped the
  extension, then the end of seeding on an anchor stop.
\<close>

definition nextBWT_search :: "Ebwt \<Rightarrow> nat \<Rightarrow> nat list \<Rightarrow> bool \<Rightarrow> ReadBWTHit \<Rightarrow> ReadBWTHit" where
  "nextBWT_search e minK seq f hit =
     (let r = partialSearch e minK seq f hit True True;
          h = hit_o r
      in
      if done_r h then h
      else
        let h = (if \<not> pseudogeneStop_o r
                 then (if cur h + 1 < len_r h then h\<lparr>cur := cur h + 1\<rparr> else h)
                 else h)
        in if anchorStop_o r then h\<lparr>done_r := True\<rparr> else h)"

text \<open>
  The states of one (read, strand) that the search driver reaches: the initial state of
  \<open>initRead\<close>; the state after \<open>nextBWT\<close> has searched a state that is not done;
  and a state that \<open>nextBWT\<close> marks done without searching it.
\<close>

inductive reachable :: "Ebwt \<Rightarrow> nat \<Rightarrow> nat list \<Rightarrow> bool \<Rightarrow> ReadBWTHit \<Rightarrow> bool"
  for e :: Ebwt and minK :: nat and seq :: "nat list" and f :: bool where
  init: "reachable e minK seq f (ReadBWTHit_init f (length seq))"
| search: "reachable e minK seq f h \<Longrightarrow> done_r h = False
           \<Longrightarrow> reachable e minK seq f (nextBWT_search e minK seq f h)"
| give_up: "reachable e minK seq f h \<Longrightarrow> done_r h = False
            \<Longrightarrow> reachable e minK seq f (h\<lparr>done_r := True\<rparr>)"

text \<open>The claimed tiling: consecutive hits abut exactly.\<close>

fun abut_exact :: "BWTHit list \<Rightarrow> bool" where
  "abut_exact (a # b # hs) = (bwoff a + len_b a = bwoff b \<and> abut_exact (b # hs))"
| "abut_exact hs = True"

text \<open>The tiling of the driver: between two hits at most one read base is skipped.\<close>

fun abut_skip :: "BWTHit list \<Rightarrow> bool" where
  "abut_skip (a # b # hs) =
     (bwoff a + len_b a \<le> bwoff b \<and> bwoff b \<le> bwoff a + len_b a + 1 \<and> abut_skip (b # hs))"
| "abut_skip hs = True"

text \<open>
  An index on which every seed of one base occurs twice and cannot be extended, and a
  read of ten \<open>A\<close>s.
\<close>

definition ebwt_short :: Ebwt where
  "ebwt_short = \<lparr>ftabChars = 1, ftabLoHi = (\<lambda>_ _. (0, 2)), mapLF = (\<lambda>_ _. 0),
                  mapLF1 = (\<lambda>_ _. OFF_MASK)\<rparr>"



text \<open>
  What holds of the loop's locals when it is left: the range is not empty, at most one of
  the two stops has fired, and each stop has fired only under its test.
\<close>

definition loop_post :: "nat \<Rightarrow> nat \<Rightarrow> LoopSt \<Rightarrow> bool" where
  "loop_post minK offset r =
     (top_l r < bot_l r
      \<and> (anchorStop r \<and> pseudogeneStop r) = False
      \<and> (if anchorStop r then bot_l r - top_l r = 1 \<and> minK + 12 \<le> dep r - offset else True)
      \<and> (if pseudogeneStop r
          then 2 \<le> bot_l r - top_l r \<and> bot_l r - top_l r \<le> 5 \<and> minK + 6 \<le> dep r - offset
          else True))"

declare ps_loop.simps [simp del]


text \<open>The type given to the hit that the loop's last locals describe (lines 3965-3967).\<close>

definition new_kind :: "LoopSt \<Rightarrow> hit_kind" where
  "new_kind st = (if anchorStop st then ANCHOR_HIT
                  else if pseudogeneStop st then PSEUDOGENE_HIT else CANDIDATE_HIT)"



text \<open>The read position at which the last partial hit ends.\<close>

definition last_end :: "ReadBWTHit \<Rightarrow> nat" where
  "last_end h = bwoff (last (partialHits h)) + len_b (last (partialHits h))"

text \<open>
  The tiling that the driver keeps: the cursor is inside the read; with no hit yet it is
  at 0; otherwise the first hit starts at 0, between two hits at most one base is
  skipped, and the cursor is at the end of the last hit or one base past it.
\<close>

definition tiles :: "ReadBWTHit \<Rightarrow> bool" where
  "tiles h =
     (cur h \<le> len_r h
      \<and> (if partialHits h = [] then cur h = 0
          else bwoff (hd (partialHits h)) = 0 \<and> abut_skip (partialHits h)
               \<and> last_end h \<le> cur h \<and> cur h \<le> last_end h + 1))"
section \<open>Intron bounds (MaxIntronLen, MaxIntronLen_noncan)\<close>

lemma shift_one:
  fixes s :: "32 word"
  assumes "s \<le> 30"
  shows "uint (push_bit (unat s) (1 :: 32 word)) = 2 ^ unat s"
proof -
  have le: "unat s \<le> 30"
    using assms by (simp add: word_le_nat_alt)
  have "(2 :: int) ^ unat s \<le> 2 ^ 30"
    by (rule power_increasing [OF le]) simp
  then have lt: "(2 :: int) ^ unat s < 2 ^ 32" by simp
  have "uint (push_bit (unat s) (1 :: 32 word)) =
        take_bit LENGTH(32) (push_bit (unat s) (uint (1 :: 32 word)))"
    by (rule unsigned_push_bit_eq)
  also have "\<dots> = 2 ^ unat s"
    using lt by (simp add: take_bit_eq_mod push_bit_eq_mult)
  finally show ?thesis .
qed

lemma unat_clamp: "unat (min (max (s::32 word) 13) 30) = min (max (unat s) 13) 30"
  by (simp add: min_def max_def word_le_nat_alt)

lemma unat_min30: "unat (min (s::32 word) 30) = min (unat s) 30"
  by (simp add: min_def word_le_nat_alt)

lemma shift_can: "uint (push_bit 1 (a::32 word) - 4) = (2 * uint a - 4) mod 2 ^ 32"
  by (simp add: push_bit_eq_mult uint_word_ariths mod_diff_left_eq take_bit_eq_mod mult.commute)

lemma shift_noncan: "uint (push_bit 1 (a::32 word) - 10) = (2 * uint a - 10) mod 2 ^ 32"
  by (simp add: push_bit_eq_mult uint_word_ariths mod_diff_left_eq take_bit_eq_mod mult.commute)

lemma nat_clamp: "0 \<le> x \<Longrightarrow> min (max (nat x) 13) 30 = nat (min (max x 13) 30)"
  by linarith

lemma nat_min30: "0 \<le> x \<Longrightarrow> min (nat x) 30 = nat (min x 30)"
  by linarith

lemma MaxIntronLen_can:
  "uint (MaxIntronLen a) =
     (if 7 \<le> uint a then 2 ^ nat (min (max ((2 * uint a - 4) mod 2 ^ 32) 13) 30) else 0)"
proof (cases "7 \<le> uint a")
  case True
  then have g: "minAnchorLen \<le> a"
    by (simp add: minAnchorLen_def word_le_def)
  have c: "min (max (push_bit 1 a - 4) 13) 30 \<le> (30 :: 32 word)" by simp
  have "unat (push_bit 1 a - 4) = nat ((2 * uint a - 4) mod 2 ^ 32)"
    unfolding unat_eq_nat_uint shift_can ..
  then have u: "unat (min (max (push_bit 1 a - 4) 13) (30 :: 32 word))
            = nat (min (max ((2 * uint a - 4) mod 2 ^ 32) 13) 30)"
    unfolding unat_clamp
    by (simp only: nat_clamp [OF pos_mod_sign] zero_less_power zero_less_numeral)
  have "uint (push_bit (unat (min (max (push_bit 1 a - 4) 13) (30 :: 32 word))) (1 :: 32 word))
        = 2 ^ nat (min (max ((2 * uint a - 4) mod 2 ^ 32) 13) 30)"
    using shift_one [OF c] by (simp only: u)
  then show ?thesis
    using True g by (simp only: MaxIntronLen_def Let_def if_True)
next
  case False
  then have g: "\<not> minAnchorLen \<le> a"
    by (simp add: minAnchorLen_def word_le_def)
  show ?thesis using False g by (simp add: MaxIntronLen_def)
qed

lemma MaxIntronLen_noncan_eq:
  "uint (MaxIntronLen_noncan a) =
     (if 14 \<le> uint a then 2 ^ nat (min ((2 * uint a - 10) mod 2 ^ 32) 30) else 0)"
proof (cases "14 \<le> uint a")
  case True
  then have g: "minAnchorLen_noncan \<le> a"
    by (simp add: minAnchorLen_noncan_def word_le_def)
  have c: "min (push_bit 1 a - 10) 30 \<le> (30 :: 32 word)" by simp
  have "unat (push_bit 1 a - 10) = nat ((2 * uint a - 10) mod 2 ^ 32)"
    unfolding unat_eq_nat_uint shift_noncan ..
  then have u: "unat (min (push_bit 1 a - 10) (30 :: 32 word))
            = nat (min ((2 * uint a - 10) mod 2 ^ 32) 30)"
    unfolding unat_min30
    by (simp only: nat_min30 [OF pos_mod_sign] zero_less_power zero_less_numeral)
  have "uint (push_bit (unat (min (push_bit 1 a - 10) (30 :: 32 word))) (1 :: 32 word))
        = 2 ^ nat (min ((2 * uint a - 10) mod 2 ^ 32) 30)"
    using shift_one [OF c] by (simp only: u)
  then show ?thesis
    using True g by (simp only: MaxIntronLen_noncan_def Let_def if_True)
next
  case False
  then have g: "\<not> minAnchorLen_noncan \<le> a"
    by (simp add: minAnchorLen_noncan_def word_le_def)
  show ?thesis using False g by (simp add: MaxIntronLen_noncan_def)
qed

text \<open>
  Claim C3. For every anchor length \<open>a\<close> (a \<open>uint32_t\<close>), the canonical bound
  \<open>MaxIntronLen a\<close> is \<open>1 << clamp (2 a - 4, 13, 30)\<close> when \<open>a \<ge> 7\<close> and 0
  otherwise, and the non-canonical bound \<open>MaxIntronLen_noncan a\<close> is
  \<open>1 << min (2 a - 10, 30)\<close> when \<open>a \<ge> 14\<close> and 0 otherwise. The shift amount is
  computed in \<open>uint32_t\<close>, which the statement writes out as \<open>mod 2 ^ 32\<close>; below
  \<open>2 ^ 31\<close> that is the plain value of \<open>2 a - 4\<close> (of \<open>2 a - 10\<close>).
\<close>

theorem MaxIntronLen_formula:
  "uint (MaxIntronLen a) =
     (if 7 \<le> uint a then 2 ^ nat (min (max ((2 * uint a - 4) mod 2 ^ 32) 13) 30) else 0)
   \<and> uint (MaxIntronLen_noncan a) =
     (if 14 \<le> uint a then 2 ^ nat (min ((2 * uint a - 10) mod 2 ^ 32) 30) else 0)"
  using MaxIntronLen_can [of a] MaxIntronLen_noncan_eq [of a] by (rule conjI)

theorem MaxIntronLen_formula_witness:
  "uint (MaxIntronLen 20) = 2 ^ 30 \<and> uint (MaxIntronLen_noncan 20) = 2 ^ 30"
  using MaxIntronLen_formula [of 20] by simp

section \<open>Compatibility of two hits\<close>




section \<open>The sentinel of calculateScore\<close>










section \<open>Combining a hit with a copy of itself\<close>






section \<open>Known splice sites in calculateScore\<close>





section \<open>Penalties in the splice-site scan\<close>



section \<open>Concordant pairs\<close>





section \<open>The search score and the scheduler\<close>












section \<open>The hit types of partialSearch\<close>

text \<open>The two blocks of the loop body change only their own counters and switches.\<close>

lemma ps_pseudo_fields:
  "top_l (ps_pseudo st t b) = top_l st" "bot_l (ps_pseudo st t b) = bot_l st"
  "as_on (ps_pseudo st t b) = as_on st" "uniq (ps_pseudo st t b) = uniq st"
  "pseudogeneStop (ps_pseudo st t b) = pseudogeneStop st"
  "anchorStop (ps_pseudo st t b) = anchorStop st"
  "same_range (ps_pseudo st t b) = same_range st"
  by (simp_all add: ps_pseudo_def)

lemma ps_anchor_fields:
  "top_l (ps_anchor minK offset st t b) = top_l st"
  "bot_l (ps_anchor minK offset st t b) = bot_l st"
  "ps_on (ps_anchor minK offset st t b) = ps_on st"
  "uniq (ps_anchor minK offset st t b) = uniq st"
  "pseudogeneStop (ps_anchor minK offset st t b) = pseudogeneStop st"
  "anchorStop (ps_anchor minK offset st t b) = anchorStop st"
  "similar_range (ps_anchor minK offset st t b) = similar_range st"
  by (simp_all add: ps_anchor_def Let_def)

lemma ps_anchor_as_on: "as_on (ps_anchor minK offset st t b) \<Longrightarrow> as_on st"
  by (cases "as_on st") (simp_all add: ps_anchor_def)

lemma ps_pseudo_ps_on: "ps_on (ps_pseudo st t b) \<Longrightarrow> ps_on st"
  by (cases "ps_on st") (simp_all add: ps_pseudo_def)

lemma ps_iter_cases:
  obtains (collapse) "ps_iter e minK seq offset st = (st, False)"
  | (pseudo) "ps_iter e minK seq offset st = (st\<lparr>uniq := uniq st + 1, pseudogeneStop := True\<rparr>, False)"
      "2 \<le> bot_l st - top_l st" "bot_l st - top_l st \<le> 5" "minK + 6 \<le> dep st - offset"
      "ps_on st"
  | (anchor) t b st1 where
      "ps_iter e minK seq offset st
         = (st1\<lparr>top_l := t, bot_l := b, dep := dep st + 1, uniq := uniq st + 1, anchorStop := True\<rparr>,
            False)"
      "t < b" "b - t = 1" "minK + 12 \<le> dep st + 1 - offset"
      "pseudogeneStop st1 = pseudogeneStop st" "anchorStop st1 = anchorStop st" "as_on st"
  | (go) t b st1 where
      "ps_iter e minK seq offset st = (st1\<lparr>top_l := t, bot_l := b, dep := dep st + 1\<rparr>, True)"
      "t < b" "pseudogeneStop st1 = pseudogeneStop st" "anchorStop st1 = anchorStop st"
      "as_on st1 \<longrightarrow> as_on st" "ps_on st1 \<longrightarrow> ps_on st"
proof -
  obtain t b where lf: "lf_step e (top_l st) (bot_l st) (seq ! (length seq - dep st - 1)) = (t, b)"
    by (cases "lf_step e (top_l st) (bot_l st) (seq ! (length seq - dep st - 1))")
  note lf = lf [simplified]
  let ?st1 = "ps_anchor minK offset (ps_pseudo st t b) t b"
  let ?P = "ps_on st \<and> b - t < bot_l st - top_l st \<and> bot_l st - top_l st \<le> 5
              \<and> dep st - offset \<ge> minK + 6 \<and> similar_range st \<ge> 5"
  let ?A = "as_on ?st1 \<and> dep st + 1 - offset \<ge> minK + 12 \<and> b - t = 1"
  have unfold: "ps_iter e minK seq offset st =
      (if b \<le> t then (st, False)
       else if ?P then (st\<lparr>uniq := uniq st + 1, pseudogeneStop := True\<rparr>, False)
       else if ?A then (?st1\<lparr>top_l := t, bot_l := b, dep := dep st + 1, uniq := uniq st + 1,
                              anchorStop := True\<rparr>, False)
       else (?st1\<lparr>top_l := t, bot_l := b, dep := dep st + 1\<rparr>, True))"
    by (simp add: ps_iter_def lf Let_def ps_pseudo_dep ps_anchor_dep ps_pseudo_fields
        ps_anchor_fields)
  show thesis
  proof (cases "b \<le> t")
    case True
    then have "ps_iter e minK seq offset st = (st, False)"
      by (simp only: unfold simp_thms if_True)
    then show thesis by (rule collapse)
  next
    case nb: False
    show thesis
    proof (cases ?P)
      case True
      have eq: "ps_iter e minK seq offset st
          = (st\<lparr>uniq := uniq st + 1, pseudogeneStop := True\<rparr>, False)"
        using nb True by (simp only: unfold simp_thms if_True if_False)
      from True nb have "2 \<le> bot_l st - top_l st" by linarith
      then show thesis
        by (rule pseudo [OF eq]) (use True in simp_all)
    next
      case np: False
      show thesis
      proof (cases ?A)
        case True
        have eq: "ps_iter e minK seq offset st
            = (?st1\<lparr>top_l := t, bot_l := b, dep := dep st + 1, uniq := uniq st + 1,
                     anchorStop := True\<rparr>, False)"
          using nb np True by (simp only: unfold simp_thms if_True if_False)
        show thesis
          by (rule anchor [OF eq])
             (use True nb in \<open>auto simp: ps_pseudo_fields ps_anchor_fields
                 dest: ps_anchor_as_on\<close>)
      next
        case False
        have eq: "ps_iter e minK seq offset st
            = (?st1\<lparr>top_l := t, bot_l := b, dep := dep st + 1\<rparr>, True)"
          using nb np False by (simp only: unfold simp_thms if_True if_False)
        show thesis
          by (rule go [OF eq])
             (use nb in \<open>auto simp: ps_pseudo_fields ps_anchor_fields
                 dest: ps_anchor_as_on ps_pseudo_ps_on\<close>)
      qed
    qed
  qed
qed


lemma ps_loop_post:
  assumes "top_l st < bot_l st" "pseudogeneStop st = False" "anchorStop st = False"
    and "as_on st \<longrightarrow> a_in" "ps_on st \<longrightarrow> p_in"
  shows "loop_post minK offset (ps_loop e minK seq offset st)
         \<and> dep st \<le> dep (ps_loop e minK seq offset st)
         \<and> dep (ps_loop e minK seq offset st) \<le> max (dep st) (length seq)
         \<and> (anchorStop (ps_loop e minK seq offset st) \<longrightarrow> a_in)
         \<and> (pseudogeneStop (ps_loop e minK seq offset st) \<longrightarrow> p_in)"
  using assms
proof (induction e minK seq offset st rule: ps_loop.induct)
  case (1 e minK seq offset st)
  show ?case
  proof (cases "dep st < length seq")
    case False
    then have "ps_loop e minK seq offset st = st"
      by (subst ps_loop.simps) simp
    with "1.prems" show ?thesis by (simp add: loop_post_def)
  next
    case True
    show ?thesis
    proof (cases rule: ps_iter_cases [of e minK seq offset st])
      case collapse
      with True have "ps_loop e minK seq offset st = st"
        by (subst ps_loop.simps) simp
      with "1.prems" show ?thesis by (simp add: loop_post_def)
    next
      case pseudo
      with True have "ps_loop e minK seq offset st
          = st\<lparr>uniq := uniq st + 1, pseudogeneStop := True\<rparr>"
        by (subst ps_loop.simps) simp
      with "1.prems" pseudo(2-5) show ?thesis by (simp add: loop_post_def)
    next
      case (anchor t b st1)
      with True have "ps_loop e minK seq offset st
          = st1\<lparr>top_l := t, bot_l := b, dep := dep st + 1, uniq := uniq st + 1,
                anchorStop := True\<rparr>"
        by (subst ps_loop.simps) simp
      with "1.prems" anchor(2-7) True show ?thesis by (simp add: loop_post_def)
    next
      case (go t b st1)
      let ?fin' = "st1\<lparr>top_l := t, bot_l := b, dep := dep st + 1\<rparr>"
      from go(1) True have eq: "ps_loop e minK seq offset st = ps_loop e minK seq offset ?fin'"
        by (subst ps_loop.simps) simp
      have "loop_post minK offset (ps_loop e minK seq offset ?fin')
         \<and> dep ?fin' \<le> dep (ps_loop e minK seq offset ?fin')
         \<and> dep (ps_loop e minK seq offset ?fin') \<le> max (dep ?fin') (length seq)
         \<and> (anchorStop (ps_loop e minK seq offset ?fin') \<longrightarrow> a_in)
         \<and> (pseudogeneStop (ps_loop e minK seq offset ?fin') \<longrightarrow> p_in)"
      proof -
        have f: "fst (ps_iter e minK seq offset st) = ?fin'"
          and sn: "snd (ps_iter e minK seq offset st)"
          using go(1) by simp_all
        show ?thesis
          using "1.IH" [OF True refl sn] go(2-6) "1.prems" unfolding f by simp
      qed
      with True show ?thesis unfolding eq by simp
    qed
  qed
qed

text \<open>
  The exits of \<open>partialSearch\<close>: one of the three early exits with an empty hit that
  ends at the new cursor \<open>c\<close>, or the exit after the loop with its locals \<open>st\<close>.
\<close>

lemma partialSearch_cases:
  fixes h :: ReadBWTHit and e minK seq f p_in a_in
  defines "r \<equiv> partialSearch e minK seq f h p_in a_in"
  obtains (early) c where
      "partialHits (hit_o r)
         = partialHits h @ [BWTHit_init OFF_MASK OFF_MASK f (cur h) (c - cur h) CANDIDATE_HIT]"
      "cur (hit_o r) = c" "len_r (hit_o r) = len_r h" "len_r h \<le> c \<longrightarrow> done_r (hit_o r)"
      "c = len_r h \<or> (cur h \<le> c \<and> (cur h \<le> length seq \<longrightarrow> c \<le> length seq))"
      "pseudogeneStop_o r = False" "anchorStop_o r = False"
  | (found) st where
      "partialHits (hit_o r)
         = partialHits h @ [BWTHit_init (top_l st) (bot_l st) f (cur h) (dep st - cur h)
                              (new_kind st)]"
      "cur (hit_o r) = dep st" "len_r (hit_o r) = len_r h" "len_r h \<le> dep st \<longrightarrow> done_r (hit_o r)"
      "cur h \<le> dep st" "cur h \<le> length seq \<longrightarrow> dep st \<le> length seq"
      "loop_post minK (cur h) st"
      "anchorStop st \<longrightarrow> a_in" "pseudogeneStop st \<longrightarrow> p_in"
      "pseudogeneStop_o r = pseudogeneStop st" "anchorStop_o r = anchorStop st"
proof -
  let ?hp = "h\<lparr>numPartialSearch := numPartialSearch h + 1\<rparr>"
  show thesis
  proof (cases "length seq - cur h < ftabChars e")
    case True
    then have eq: "r = \<lparr>hit_o = (empty_hit f ?hp (cur h) (len_r h))\<lparr>done_r := True\<rparr>,
         pseudogeneStop_o = False, anchorStop_o = False, nelt = 0\<rparr>"
      by (simp add: r_def partialSearch_def Let_def)
    show thesis
      by (rule early [of "len_r h"]) (simp_all add: eq empty_hit_def)
  next
    case nA: False
    show thesis
    proof (cases "find (\<lambda>i. seq ! (length seq - cur h - 1 - i) > 3) [0 ..< ftabChars e]")
      case (Some i)
      then have i: "i < ftabChars e"
        by (auto simp: find_Some_iff)
      let ?hx = "empty_hit f ?hp (cur h) (cur h + (i + 1))"
      have eq: "r = \<lparr>hit_o = (if cur ?hx \<ge> len_r ?hx then ?hx\<lparr>done_r := True\<rparr> else ?hx),
                 pseudogeneStop_o = False, anchorStop_o = False, nelt = 0\<rparr>"
        using nA Some by (simp add: r_def partialSearch_def Let_def)
      show thesis
        by (rule early [of "cur h + (i + 1)"]) (use i nA in \<open>auto simp: eq empty_hit_def\<close>)
    next
      case None
      obtain t b where tb: "ftabLoHi e seq (length seq - cur h - ftabChars e) = (t, b)"
        by (cases "ftabLoHi e seq (length seq - cur h - ftabChars e)")
      show thesis
      proof (cases "b \<le> t")
        case True
        let ?hx = "empty_hit f ?hp (cur h) (cur h + ftabChars e)"
        have eq: "r = \<lparr>hit_o = (if cur ?hx \<ge> len_r ?hx then ?hx\<lparr>done_r := True\<rparr> else ?hx),
                 pseudogeneStop_o = False, anchorStop_o = False, nelt = 0\<rparr>"
          using nA None tb True by (simp add: r_def partialSearch_def Let_def)
        show thesis
          by (rule early [of "cur h + ftabChars e"]) (use nA in \<open>auto simp: eq empty_hit_def\<close>)
      next
        case False
        let ?ini = "\<lparr>top_l = t, bot_l = b, dep = cur h + ftabChars e, ps_on = p_in,
                      as_on = a_in, same_range = 0, similar_range = 0,
                      uniq = numUniqueSearch h, pseudogeneStop = False, anchorStop = False\<rparr>"
        let ?fin = "ps_loop e minK seq (cur h) ?ini"
        have "top_l ?ini < bot_l ?ini" "pseudogeneStop ?ini = False" "anchorStop ?ini = False"
          "as_on ?ini \<longrightarrow> a_in" "ps_on ?ini \<longrightarrow> p_in"
          using False by simp_all
        note all = ps_loop_post [where e = e and minK = minK and seq = seq and offset = "cur h", OF this]
        have di: "dep ?ini = cur h + ftabChars e" by simp
        have post: "loop_post minK (cur h) ?fin" "cur h + ftabChars e \<le> dep ?fin"
          "dep ?fin \<le> max (cur h + ftabChars e) (length seq)"
          "anchorStop ?fin \<longrightarrow> a_in" "pseudogeneStop ?fin \<longrightarrow> p_in"
          using all unfolding di by blast+
        then have tb': "top_l ?fin < bot_l ?fin" by (simp add: loop_post_def)
        let ?hit = "?hp\<lparr>numUniqueSearch := uniq ?fin\<rparr>"
        let ?hx = "?hit\<lparr>cur := dep ?fin,
                         partialHits := partialHits ?hit
                           @ [BWTHit_init (top_l ?fin) (bot_l ?fin) f (cur h) (dep ?fin - cur h)
                                (new_kind ?fin)]\<rparr>"
        have eq: "r = \<lparr>hit_o = (if cur ?hx \<ge> len_r ?hx then
                            (if new_kind ?fin = CANDIDATE_HIT
                             then ?hx\<lparr>numUniqueSearch := numUniqueSearch ?hx + 1\<rparr> else ?hx)
                              \<lparr>done_r := True\<rparr>
                          else ?hx),
                 pseudogeneStop_o = pseudogeneStop ?fin, anchorStop_o = anchorStop ?fin,
                 nelt = bot_l ?fin - top_l ?fin\<rparr>"
          using nA None tb False tb'
          by (simp add: r_def partialSearch_def Let_def new_kind_def)
        show thesis
          by (rule found [of ?fin]) (use post nA in \<open>auto simp: eq\<close>)
      qed
    qed
  qed
qed







section \<open>The tiling of the read by the partial hits\<close>

lemma abut_skip_snoc:
  "abut_skip (hs @ [b])
     = (abut_skip hs
        \<and> (hs = [] \<or> (bwoff (last hs) + len_b (last hs) \<le> bwoff b
                       \<and> bwoff b \<le> bwoff (last hs) + len_b (last hs) + 1)))"
  by (induction hs rule: abut_skip.induct) auto

lemma partialSearch_tiles:
  assumes "tiles h" "len_r h = length seq"
  shows "tiles (hit_o (partialSearch e minK seq f h p_in a_in))
         \<and> len_r (hit_o (partialSearch e minK seq f h p_in a_in)) = length seq
         \<and> partialHits (hit_o (partialSearch e minK seq f h p_in a_in)) \<noteq> []
         \<and> last_end (hit_o (partialSearch e minK seq f h p_in a_in))
             = cur (hit_o (partialSearch e minK seq f h p_in a_in))"
proof (cases e minK seq f h p_in a_in rule: partialSearch_cases)
  case (early c)
  from assms have "cur h \<le> length seq" by (simp add: tiles_def)
  with early(5) assms have c: "cur h \<le> c" "c \<le> length seq" by auto
  from assms c early(1-3) show ?thesis
    by (auto simp: tiles_def last_end_def abut_skip_snoc BWTHit_init_def split: if_splits)
next
  case (found st)
  from assms have "cur h \<le> length seq" by (simp add: tiles_def)
  with found(5,6) have c: "cur h \<le> dep st" "dep st \<le> length seq" by auto
  from assms c found(1-3) show ?thesis
    by (auto simp: tiles_def last_end_def abut_skip_snoc BWTHit_init_def split: if_splits)
qed

lemma nextBWT_search_tiles:
  assumes "tiles h" "len_r h = length seq"
  shows "tiles (nextBWT_search e minK seq f h) \<and> len_r (nextBWT_search e minK seq f h) = length seq"
proof -
  let ?hr = "hit_o (partialSearch e minK seq f h True True)"
  from partialSearch_tiles [OF assms, of e minK f True True]
  have t: "tiles ?hr" "len_r ?hr = length seq" "partialHits ?hr \<noteq> []" "last_end ?hr = cur ?hr"
    by blast+
  then show ?thesis
    by (auto simp: nextBWT_search_def Let_def tiles_def last_end_def)
qed

lemma reachable_tiles_aux:
  "reachable e minK seq f h \<Longrightarrow> tiles h \<and> len_r h = length seq"
proof (induction rule: reachable.induct)
  case init
  show ?case by (simp add: tiles_def ReadBWTHit_init_def)
next
  case (search h)
  then show ?case by (simp add: nextBWT_search_tiles)
next
  case (give_up h)
  then show ?case by (auto simp: tiles_def last_end_def split: if_splits)
qed

text \<open>
  Claim C8, amended. In every state that the driver reaches, the hits lie in the read
  in order, the first one starts at 0, between two consecutive hits at most one base is
  skipped, and the cursor is at the end of the last hit or one base past it. The last
  hit ends exactly at the cursor when \<open>partialSearch\<close> returns, which is where
  \<open>repOk\<close> is asserted; \<open>nextBWT\<close> then moves the cursor one base further
  unless the search ended on a pseudogene stop or next to the read's end.
\<close>

theorem reachable_tiling:
  assumes "reachable e minK seq f h"
  shows "tiles h \<and> len_r h = length seq
         \<and> tiles (hit_o (partialSearch e minK seq f h True True))
         \<and> last_end (hit_o (partialSearch e minK seq f h True True))
             = cur (hit_o (partialSearch e minK seq f h True True))"
proof -
  from assms have t: "tiles h" "len_r h = length seq"
    by (simp_all add: reachable_tiles_aux)
  from partialSearch_tiles [OF t, of e minK f True True] t show ?thesis
    by blast
qed

text \<open>
  Two searches of a read of ten \<open>A\<close>s on an index where no seed extends beyond one
  base: each search emits a hit of one base and the driver then skips one base.
\<close>

lemma short_run1:
  "nextBWT_search ebwt_short 2 (replicate 10 0) True (ReadBWTHit_init True 10)
   = \<lparr>fw_r = True, len_r = 10, cur = 2, done_r = False, numPartialSearch = 1,
      numUniqueSearch = 0,
      partialHits = [\<lparr>top_b = 0, bot_b = 2, fw_b = True, bwoff = 0, len_b = 1,
                      coords = [], anchor_examined = False, hit_type = CANDIDATE_HIT\<rparr>]\<rparr>"
  by (simp add: nextBWT_search_def partialSearch_def Let_def ebwt_short_def ReadBWTHit_init_def
        ps_loop.simps ps_iter_def lf_step_def BWTHit_init_def)

lemma short_run2:
  "nextBWT_search ebwt_short 2 (replicate 10 0) True
     (nextBWT_search ebwt_short 2 (replicate 10 0) True (ReadBWTHit_init True 10))
   = \<lparr>fw_r = True, len_r = 10, cur = 4, done_r = False, numPartialSearch = 2,
      numUniqueSearch = 0,
      partialHits = [\<lparr>top_b = 0, bot_b = 2, fw_b = True, bwoff = 0, len_b = 1,
                      coords = [], anchor_examined = False, hit_type = CANDIDATE_HIT\<rparr>,
                     \<lparr>top_b = 0, bot_b = 2, fw_b = True, bwoff = 2, len_b = 1,
                      coords = [], anchor_examined = False, hit_type = CANDIDATE_HIT\<rparr>]\<rparr>"
  unfolding short_run1
  by (simp add: nextBWT_search_def partialSearch_def Let_def ebwt_short_def
        ps_loop.simps ps_iter_def lf_step_def BWTHit_init_def)

lemma short_reachable1:
  "reachable ebwt_short 2 (replicate 10 0) True
     (nextBWT_search ebwt_short 2 (replicate 10 0) True (ReadBWTHit_init True 10))"
proof -
  have "reachable ebwt_short 2 (replicate 10 0) True (ReadBWTHit_init True 10)"
    using reachable.init [of ebwt_short 2 "replicate 10 0" True] by simp
  then show ?thesis
    by (rule reachable.search) (simp add: ReadBWTHit_init_def)
qed

lemma short_reachable2:
  "reachable ebwt_short 2 (replicate 10 0) True
     (nextBWT_search ebwt_short 2 (replicate 10 0) True
        (nextBWT_search ebwt_short 2 (replicate 10 0) True (ReadBWTHit_init True 10)))"
  by (rule reachable.search [OF short_reachable1]) (simp add: short_run1)

theorem reachable_tiling_witness:
  "reachable ebwt_short 2 (replicate 10 0) True
     (nextBWT_search ebwt_short 2 (replicate 10 0) True (ReadBWTHit_init True 10))
   \<and> tiles (nextBWT_search ebwt_short 2 (replicate 10 0) True (ReadBWTHit_init True 10))
   \<and> len_r (nextBWT_search ebwt_short 2 (replicate 10 0) True (ReadBWTHit_init True 10)) = 10"
  using reachable_tiling [OF short_reachable1] short_reachable1
  by simp

text \<open>
  Claim C8 as stated fails after the second search: the first hit ends at 1 and the
  second starts at 2, and the second hit ends at 3 while the cursor is at 4.
\<close>

theorem reachable_skip_counterexample:
  "reachable ebwt_short 2 (replicate 10 0) True
     (nextBWT_search ebwt_short 2 (replicate 10 0) True
        (nextBWT_search ebwt_short 2 (replicate 10 0) True (ReadBWTHit_init True 10)))
   \<and> abut_exact (partialHits
        (nextBWT_search ebwt_short 2 (replicate 10 0) True
           (nextBWT_search ebwt_short 2 (replicate 10 0) True (ReadBWTHit_init True 10)))) = False
   \<and> last_end
        (nextBWT_search ebwt_short 2 (replicate 10 0) True
           (nextBWT_search ebwt_short 2 (replicate 10 0) True (ReadBWTHit_init True 10))) = 3
   \<and> cur
        (nextBWT_search ebwt_short 2 (replicate 10 0) True
           (nextBWT_search ebwt_short 2 (replicate 10 0) True (ReadBWTHit_init True 10))) = 4"
  using short_reachable2
  by (simp add: short_run2 last_end_def)
end
